theory Spec2Isabelle
  imports Main "HOL-Library.Multiset" "HOL-Library.Sublist"
begin

section \<open>randpage: a random page of a random PDF\<close>

text \<open>
  The program is one Go file, \<^verbatim>\<open>main.go\<close>, with three functions: \<^verbatim>\<open>main\<close> (collect the
  candidates, shuffle them, try them one after the other), \<^verbatim>\<open>countPages\<close> and \<^verbatim>\<open>open\<close>
  (serve the file over a temporary HTTP server and start the viewer). The functions of
  \<^verbatim>\<open>main.go\<close> are embedded below in the order of the file. What they call in Go's standard
  library (\<^verbatim>\<open>strings\<close>, \<^verbatim>\<open>bufio.Scanner\<close>, \<^verbatim>\<open>filepath.WalkDir\<close>, \<^verbatim>\<open>rand.Shuffle\<close>,
  \<^verbatim>\<open>rand.Intn\<close>, \<^verbatim>\<open>sync.WaitGroup\<close>, \<^verbatim>\<open>net/http\<close>) is embedded from the library's behaviour,
  and everything the operating system decides (the file tree, standard input, the random
  draws, whether a port can be bound, whether the viewer starts, which requests arrive and
  what the writes of a response return) is an explicit input of the model.
\<close>

subsection \<open>Strings\<close>

text \<open>
  A Go string is a sequence of bytes, here a \<^typ>\<open>string\<close>. \<^verbatim>\<open>strings.ToLower\<close> is used by
  \<^verbatim>\<open>main\<close> only to compare a suffix with \<^verbatim>\<open>".pdf"\<close>; it is embedded on the ASCII letters,
  the only bytes whose lower-case form is a byte of \<^verbatim>\<open>".pdf"\<close>.
\<close>

definition ToLowerChar :: "char \<Rightarrow> char" where
  "ToLowerChar c =
     (case map_of (zip ''ABCDEFGHIJKLMNOPQRSTUVWXYZ'' ''abcdefghijklmnopqrstuvwxyz'') c of
        Some l \<Rightarrow> l
      | None \<Rightarrow> c)"

definition ToLower :: "string \<Rightarrow> string" where
  "ToLower s = map ToLowerChar s"

text \<open>\<^verbatim>\<open>strings.HasSuffix(s, suffix)\<close>:
  \<^verbatim>\<open>len(s) >= len(suffix) && s[len(s)-len(suffix):] == suffix\<close>.\<close>

definition HasSuffix :: "string \<Rightarrow> string \<Rightarrow> bool" where
  "HasSuffix s suf = (length suf \<le> length s \<and> drop (length s - length suf) s = suf)"

subsection \<open>Standard input: \<^verbatim>\<open>bufio.Scanner\<close>\<close>

text \<open>
  \<^verbatim>\<open>bufio.NewScanner\<close> splits its input with \<^verbatim>\<open>ScanLines\<close>: a token ends at a newline, one
  trailing carriage return is dropped, and a last line without newline is a token when it is
  not empty. A line of \<^verbatim>\<open>MaxScanTokenSize\<close> bytes or more fills the scanner's buffer before
  its newline is seen: \<^verbatim>\<open>Scan\<close> then returns false and \<^verbatim>\<open>Err\<close> is \<^verbatim>\<open>ErrTooLong\<close>.
\<close>

definition MaxScanTokenSize :: nat where
  "MaxScanTokenSize = 65536"

definition dropCR :: "string \<Rightarrow> string" where
  "dropCR data = (if data \<noteq> [] \<and> last data = CHR 0x0D then butlast data else data)"

text \<open>\<open>scan cur input\<close>: the tokens still to come when \<open>cur\<close> is the part of the current line
  already buffered; the flag says that the scan ended with an error, and the last component
  is the input the scanner has not consumed.\<close>

fun scan :: "string \<Rightarrow> string \<Rightarrow> string list \<times> bool \<times> string" where
  "scan cur [] = ((if cur = [] then [] else [dropCR cur]), False, [])"
| "scan cur (c # cs) =
     (if c = CHR 0x0A then
        (case scan [] cs of (toks, err, rest) \<Rightarrow> (dropCR cur # toks, err, rest))
      else if MaxScanTokenSize \<le> length cur + 1 then ([], True, cs)
      else scan (cur @ [c]) cs)"

subsection \<open>The file tree: \<^verbatim>\<open>filepath.WalkDir\<close>\<close>

text \<open>
  What \<^verbatim>\<open>WalkDir\<close> meets: an entry that is not a directory, with the type bits of its
  \<^verbatim>\<open>fs.FileMode\<close>; a directory with the entries \<^verbatim>\<open>os.ReadDir\<close> returns, in that order; a
  directory whose \<^verbatim>\<open>ReadDir\<close> fails.
\<close>

datatype ftype = Regular | Symlink | NamedPipe | Socket | Device | CharDevice | Irregular

datatype fsnode =
    File string ftype
  | Dir string "fsnode list"
  | UnreadableDir string

datatype dtype = TypeDir | TypeOf ftype

record DirEntry =
  Name :: string
  Type :: dtype

definition IsRegular :: "dtype \<Rightarrow> bool" where
  "IsRegular t = (t = TypeOf Regular)"

fun node_entry :: "fsnode \<Rightarrow> DirEntry" where
  "node_entry (File n t) = \<lparr>Name = n, Type = TypeOf t\<rparr>"
| "node_entry (Dir n cs) = \<lparr>Name = n, Type = TypeDir\<rparr>"
| "node_entry (UnreadableDir n) = \<lparr>Name = n, Type = TypeDir\<rparr>"

datatype walk_error = LstatError | ReadDirError

text \<open>
  The arguments of one call of the \<^verbatim>\<open>fs.WalkDirFunc\<close>: \<^verbatim>\<open>(path, d, nil)\<close> for an entry that is
  visited, \<^verbatim>\<open>(path, d, err)\<close> with \<^verbatim>\<open>err != nil\<close> to report an error (\<^verbatim>\<open>d\<close> is \<^verbatim>\<open>nil\<close> when
  the \<^verbatim>\<open>Lstat\<close> of the root failed).
\<close>

datatype walk_call =
    Visit string DirEntry
  | Report string "DirEntry option" walk_error

type_synonym 's WalkDirFunc = "walk_call \<Rightarrow> 's \<Rightarrow> walk_error option \<times> 's"

text \<open>
  \<^verbatim>\<open>walkDir\<close> of \<^verbatim>\<open>path/filepath\<close>: call the function on the entry; stop at an error or at
  a non-directory; read the directory, reporting a failure with a second call; walk the
  children in order and stop at the first error. The function of \<^verbatim>\<open>main\<close> returns \<^verbatim>\<open>nil\<close> or
  the error it was given, never \<^verbatim>\<open>SkipDir\<close> or \<^verbatim>\<open>SkipAll\<close>, so those two branches of the
  library code are left out. \<open>join\<close> is \<^verbatim>\<open>filepath.Join\<close>, a parameter.
\<close>

fun walkDir :: "'s WalkDirFunc \<Rightarrow> (string \<Rightarrow> string \<Rightarrow> string) \<Rightarrow> string \<Rightarrow> fsnode \<Rightarrow> 's
      \<Rightarrow> walk_error option \<times> 's"
  and walkDirs :: "'s WalkDirFunc \<Rightarrow> (string \<Rightarrow> string \<Rightarrow> string) \<Rightarrow> string \<Rightarrow> fsnode list \<Rightarrow> 's
      \<Rightarrow> walk_error option \<times> 's" where
  "walkDir fn join path (File n t) s = fn (Visit path (node_entry (File n t))) s"
| "walkDir fn join path (UnreadableDir n) s =
     (case fn (Visit path (node_entry (UnreadableDir n))) s of
        (Some e, s') \<Rightarrow> (Some e, s')
      | (None, s') \<Rightarrow> fn (Report path (Some (node_entry (UnreadableDir n))) ReadDirError) s')"
| "walkDir fn join path (Dir n cs) s =
     (case fn (Visit path (node_entry (Dir n cs))) s of
        (Some e, s') \<Rightarrow> (Some e, s')
      | (None, s') \<Rightarrow> walkDirs fn join path cs s')"
| "walkDirs fn join path [] s = (None, s)"
| "walkDirs fn join path (c # cs) s =
     (case walkDir fn join (join path (Name (node_entry c))) c s of
        (Some e, s') \<Rightarrow> (Some e, s')
      | (None, s') \<Rightarrow> walkDirs fn join path cs s')"

text \<open>\<^verbatim>\<open>WalkDir(root, fn)\<close>: \<open>lstat\<close> is the file tree, \<open>None\<close> where \<^verbatim>\<open>os.Lstat\<close> fails.\<close>

definition WalkDir :: "'s WalkDirFunc \<Rightarrow> (string \<Rightarrow> string \<Rightarrow> string) \<Rightarrow> (string \<Rightarrow> fsnode option)
      \<Rightarrow> string \<Rightarrow> 's \<Rightarrow> walk_error option \<times> 's" where
  "WalkDir fn join lstat root s =
     (case lstat root of
        None \<Rightarrow> fn (Report root None LstatError) s
      | Some node \<Rightarrow> walkDir fn join root node s)"

subsection \<open>\<^verbatim>\<open>main\<close>: collecting the candidates\<close>

text \<open>
  The function literal that \<^verbatim>\<open>main\<close> passes to \<^verbatim>\<open>WalkDir\<close> (lines 41 to 52); its state is the
  slice \<^verbatim>\<open>pdfs\<close>.
\<close>

fun walk_fn :: "string list WalkDirFunc" where
  "walk_fn (Report path d err) pdfs = (Some err, pdfs)"
| "walk_fn (Visit path d) pdfs =
     (let lowername = ToLower (Name d) in
      if IsRegular (Type d) \<and> HasSuffix lowername ''.pdf'' then (None, pdfs @ [path])
      else (None, pdfs))"

text \<open>
  The state of the first loop of \<^verbatim>\<open>main\<close>: the slice \<^verbatim>\<open>pdfs\<close>, what is left of standard
  input, and the lines printed.
\<close>

record collector =
  pdfs :: "string list"
  stdin :: string
  printed :: "string list"

text \<open>The branch \<^verbatim>\<open>arg == "-"\<close> (lines 30 to 39): every token of the scanner is appended.\<close>

definition read_stdin :: "collector \<Rightarrow> collector" where
  "read_stdin st =
     (case scan [] (stdin st) of
        (toks, err, rest) \<Rightarrow>
          \<lparr>pdfs = pdfs st @ toks, stdin = rest,
           printed = (if err then printed st @ [''Reading standard input: bufio.Scanner: token too long'']
                      else printed st)\<rparr>)"

text \<open>The other branch (lines 41 to 52): the value \<^verbatim>\<open>WalkDir\<close> returns is dropped.\<close>

definition walk_arg :: "(string \<Rightarrow> string \<Rightarrow> string) \<Rightarrow> (string \<Rightarrow> fsnode option) \<Rightarrow> string
      \<Rightarrow> collector \<Rightarrow> collector" where
  "walk_arg join lstat arg st = st\<lparr>pdfs := snd (WalkDir walk_fn join lstat arg (pdfs st))\<rparr>"

fun collect :: "(string \<Rightarrow> string \<Rightarrow> string) \<Rightarrow> (string \<Rightarrow> fsnode option) \<Rightarrow> string list
      \<Rightarrow> collector \<Rightarrow> collector" where
  "collect join lstat [] st = st"
| "collect join lstat (arg # args) st =
     (if arg = ''-'' then collect join lstat args (read_stdin st)
      else collect join lstat args (walk_arg join lstat arg st))"

subsection \<open>Panics and the random source\<close>

text \<open>A panic ends the Go program (or, inside an HTTP handler, the handler).\<close>

datatype panic =
    InvalidArgumentToShuffle
  | InvalidArgumentToIntn
  | IndexOutOfRange
  | SliceBoundsOutOfRange
  | NegativeWaitGroupCounter

text \<open>
  \<^verbatim>\<open>rnd\<close> is a \<^verbatim>\<open>*rand.Rand\<close> seeded from the clock. The model takes its future as given:
  \<open>r k\<close> is the number drawn at the \<open>k\<close>-th request from now, and a request for a number
  below \<open>n\<close> reduces the draw modulo \<open>n\<close>, so that every value of \<open>[0, n)\<close> can come out
  and no other.
\<close>

type_synonym Rand = "nat \<Rightarrow> nat"

definition below :: "Rand \<Rightarrow> nat \<Rightarrow> nat \<times> Rand" where
  "below r n = (r 0 mod n, \<lambda>k. r (Suc k))"

text \<open>\<^verbatim>\<open>(*Rand).Intn(n)\<close>: panics when \<^verbatim>\<open>n <= 0\<close>, else a number of \<open>[0, n)\<close>.\<close>

definition Intn :: "Rand \<Rightarrow> int \<Rightarrow> panic + (int \<times> Rand)" where
  "Intn r n =
     (if n \<le> 0 then Inl InvalidArgumentToIntn
      else case below r (nat n) of (v, r') \<Rightarrow> Inr (int v, r'))"

subsection \<open>\<^verbatim>\<open>main\<close>: the shuffle\<close>

text \<open>The function literal of lines 56 to 58:
  \<^verbatim>\<open>pdfs[i], pdfs[j] = pdfs[j], pdfs[i]\<close>; an index out of range panics.\<close>

definition swap :: "nat \<Rightarrow> nat \<Rightarrow> string list \<Rightarrow> panic + string list" where
  "swap i j xs =
     (if i < length xs \<and> j < length xs then Inr (xs[i := xs ! j, j := xs ! i])
      else Inl IndexOutOfRange)"

text \<open>
  \<^verbatim>\<open>(*Rand).Shuffle(n, swap)\<close>: panics when \<^verbatim>\<open>n < 0\<close>; else, for \<^verbatim>\<open>i\<close> from \<^verbatim>\<open>n - 1\<close> down to
  \<^verbatim>\<open>1\<close>, draws \<^verbatim>\<open>j\<close> in \<open>[0, i]\<close> and calls \<^verbatim>\<open>swap(i, j)\<close>.
\<close>

fun shuffle_loop :: "Rand \<Rightarrow> nat \<Rightarrow> string list \<Rightarrow> panic + (string list \<times> Rand)" where
  "shuffle_loop r 0 xs = Inr (xs, r)"
| "shuffle_loop r (Suc i) xs =
     (case below r (Suc i + 1) of
        (j, r') \<Rightarrow>
          (case swap (Suc i) j xs of
             Inl p \<Rightarrow> Inl p
           | Inr xs' \<Rightarrow> shuffle_loop r' i xs'))"

definition Shuffle :: "Rand \<Rightarrow> int \<Rightarrow> string list \<Rightarrow> panic + (string list \<times> Rand)" where
  "Shuffle r n xs =
     (if n < 0 then Inl InvalidArgumentToShuffle else shuffle_loop r (nat n - 1) xs)"

subsection \<open>\<^verbatim>\<open>countPages\<close>\<close>

text \<open>
  What the operating system and the libraries do while one candidate is tried:
  \<^verbatim>\<open>api.ReadContextFile\<close> (an error, or the \<^verbatim>\<open>PageCount\<close> of the document's cross-reference
  table), \<^verbatim>\<open>os.ReadFile\<close>, \<^verbatim>\<open>net.Listen\<close> (an error, or the port it bound), \<^verbatim>\<open>cmd.Run\<close>, and
  the requests that reach the server of this attempt, in the order their handlers run;
  \<open>before_run\<close> is the number of them that are handled before \<^verbatim>\<open>cmd.Run()\<close> returns, that is
  before \<^verbatim>\<open>wg.Wait()\<close> is called. A request has its method, the path of its URL and what the
  calls of \<^verbatim>\<open>w.Write\<close> return while it is answered.
\<close>

datatype error = ReadContextFileError | ReadFileError | ListenError | RunError

datatype write_result = Wrote nat | WriteFailed nat

record request =
  Method :: string
  Path :: string
  Writes :: "write_result list"

record os_env =
  ReadContextFile :: "error + int"
  ReadFile :: "error + string"
  Listen :: "error + nat"
  Run :: "error option"
  requests :: "request list"
  before_run :: nat

text \<open>Lines 81 to 88; a Go \<^verbatim>\<open>(int, error)\<close> is a pair.\<close>

definition countPages :: "os_env \<Rightarrow> string \<Rightarrow> int \<times> error option" where
  "countPages env path =
     (case ReadContextFile env of
        Inl err \<Rightarrow> (0, Some err)
      | Inr PageCount \<Rightarrow> (PageCount, None))"

subsection \<open>\<^verbatim>\<open>open\<close>: the handler\<close>

text \<open>\<^verbatim>\<open>strconv.Itoa\<close>.\<close>

fun digits :: "nat \<Rightarrow> string" where
  "digits n = (if n < 10 then [''0123456789'' ! n] else digits (n div 10) @ [''0123456789'' ! (n mod 10)])"

declare digits.simps [simp del]

definition Itoa :: "int \<Rightarrow> string" where
  "Itoa i = (if i < 0 then CHR ''-'' # digits (nat (- i)) else digits (nat i))"

text \<open>
  \<^verbatim>\<open>filepath.Base\<close> with \<^verbatim>\<open>/\<close> as separator: the last element of the path, after the
  trailing separators are removed; \<^verbatim>\<open>.\<close> for the empty path and \<^verbatim>\<open>/\<close> for a path of
  separators only.
\<close>

definition Base :: "string \<Rightarrow> string" where
  "Base path =
     (if path = [] then ''.''
      else let p = rev (dropWhile (\<lambda>c. c = CHR ''/'') (rev path)) in
        if p = [] then ''/'' else rev (takeWhile (\<lambda>c. c \<noteq> CHR ''/'') (rev p)))"

text \<open>
  The loop of lines 122 to 130. \<open>ws\<close> is what the calls of \<^verbatim>\<open>w.Write\<close> return, one after
  the other: \<open>Wrote n\<close> is \<^verbatim>\<open>(n, nil)\<close> and \<open>WriteFailed n\<close> is \<^verbatim>\<open>(n, err)\<close> with an error. The
  result says how the loop ended and which bytes the calls have accepted. When \<open>ws\<close> gives
  no result for a call, that call does not return (\<open>LoopStall\<close>).
\<close>

datatype loop_end = LoopDone | LoopError | LoopPanic | LoopStall

fun write_loop :: "write_result list \<Rightarrow> string \<Rightarrow> string \<Rightarrow> loop_end \<times> string" where
  "write_loop ws [] sent = (LoopDone, sent)"
| "write_loop [] (b # bs) sent = (LoopStall, sent)"
| "write_loop (WriteFailed n # ws) (b # bs) sent = (LoopError, sent @ take n (b # bs))"
| "write_loop (Wrote n # ws) (b # bs) sent =
     (if length (b # bs) < n then (LoopPanic, sent @ b # bs)
      else write_loop ws (drop n (b # bs)) (sent @ take n (b # bs)))"

text \<open>
  \<^verbatim>\<open>sync.WaitGroup\<close>: the counter. \<^verbatim>\<open>Done\<close> subtracts one and panics when the counter becomes
  negative; \<^verbatim>\<open>Wait\<close> returns when the counter is zero.
\<close>

definition Done :: "int \<Rightarrow> int \<times> panic option" where
  "Done wg = (wg - 1, if wg - 1 < 0 then Some NegativeWaitGroupCounter else None)"

datatype handler_exit = Returns | Panics panic | Stalls

text \<open>
  A response: the status, with \<open>None\<close> when the connection is closed without any response,
  the headers, the body, and how the handler ended.
\<close>

record response =
  Status :: "nat option"
  Header :: "string \<rightharpoonup> string"
  Body :: string
  Ends :: handler_exit

text \<open>\<^verbatim>\<open>http.NotFound\<close>.\<close>

definition NotFound :: response where
  "NotFound =
     \<lparr>Status = Some 404,
      Header = [''Content-Type'' \<mapsto> ''text/plain; charset=utf-8'',
                ''X-Content-Type-Options'' \<mapsto> ''nosniff''],
      Body = ''404 page not found'' @ [CHR 0x0A],
      Ends = Returns\<rparr>"

text \<open>
  The function literal of lines 113 to 132 for one request, with the variables it captures:
  \<^verbatim>\<open>filename\<close>, \<^verbatim>\<open>buf\<close> and the counter of \<^verbatim>\<open>wg\<close>. Its result is what it has handed to the
  \<^verbatim>\<open>http.ResponseWriter\<close> when it ends: the headers it set, the bytes its writes had
  accepted, and the status \<^verbatim>\<open>200\<close> that \<^verbatim>\<open>net/http\<close> gives a response whose handler sets none.
\<close>

definition handlerFunc :: "string \<Rightarrow> string \<Rightarrow> int \<Rightarrow> request \<Rightarrow> response \<times> int" where
  "handlerFunc filename buf wg r =
     (if Path r \<noteq> ''/'' @ filename then (NotFound, wg)
      else
        let h = [''Content-Type'' \<mapsto> ''application/pdf'',
                 ''Content-Length'' \<mapsto> Itoa (int (length buf))] in
        (case write_loop (Writes r) buf [] of
          (LoopError, sent) \<Rightarrow>
            (\<lparr>Status = Some 200, Header = h, Body = sent, Ends = Returns\<rparr>, wg)
        | (LoopPanic, sent) \<Rightarrow>
            (\<lparr>Status = Some 200, Header = h, Body = sent, Ends = Panics SliceBoundsOutOfRange\<rparr>,
             wg)
        | (LoopStall, sent) \<Rightarrow>
            (\<lparr>Status = Some 200, Header = h, Body = sent, Ends = Stalls\<rparr>, wg)
        | (LoopDone, sent) \<Rightarrow>
            (case Done wg of
               (wg', None) \<Rightarrow>
                 (\<lparr>Status = Some 200, Header = h, Body = sent, Ends = Returns\<rparr>, wg')
             | (wg', Some p) \<Rightarrow>
                 (\<lparr>Status = Some 200, Header = h, Body = sent, Ends = Panics p\<rparr>, wg'))))"

text \<open>
  What \<^verbatim>\<open>net/http\<close> makes of it. The \<^verbatim>\<open>ResponseWriter\<close> keeps what is written in a buffer of
  \<^verbatim>\<open>bufferBeforeChunkingSize\<close> bytes: a write that is larger than the buffer goes past it to
  the connection, together with the status and the headers, and the buffer is flushed when
  the handler returns. When the handler does not return (it panics, and the server closes
  the connection), what is in the buffer is dropped: a file that fits in the buffer is then
  not sent at all, nor are the status and the headers. The body of the answer to a \<^verbatim>\<open>HEAD\<close>
  request is never sent.
\<close>

definition bufferBeforeChunkingSize :: nat where
  "bufferBeforeChunkingSize = 2048"

definition wire :: "string \<Rightarrow> request \<Rightarrow> response \<Rightarrow> response" where
  "wire buf r resp =
     (if Ends resp = Returns \<or> bufferBeforeChunkingSize < length buf then
        resp\<lparr>Body := (if Method r = ''HEAD'' then [] else Body resp)\<rparr>
      else \<lparr>Status = None, Header = Map.empty, Body = [], Ends = Ends resp\<rparr>)"

text \<open>
  The handler as the server runs it: the response is what goes to the connection, and the
  number is the counter of \<^verbatim>\<open>wg\<close> afterwards.
\<close>

definition handler :: "string \<Rightarrow> string \<Rightarrow> int \<Rightarrow> request \<Rightarrow> response \<times> int" where
  "handler filename buf wg r =
     (case handlerFunc filename buf wg r of (resp, wg') \<Rightarrow> (wire buf r resp, wg'))"

text \<open>
  \<^verbatim>\<open>srv.Serve(ln)\<close> runs the handler on every request, and goes on after a handler that
  panics or stalls. The handlers are run one after the other here, and the requests of an
  attempt are those that the server has finished with while the process is there.
\<close>

fun serve :: "string \<Rightarrow> string \<Rightarrow> int \<Rightarrow> request list \<Rightarrow> response list \<times> int" where
  "serve filename buf wg [] = ([], wg)"
| "serve filename buf wg (r # rs) =
     (case handler filename buf wg r of
        (resp, wg') \<Rightarrow>
          (case serve filename buf wg' rs of (resps, wg'') \<Rightarrow> (resp # resps, wg'')))"

text \<open>\<^verbatim>\<open>wg.Wait()\<close>, called when the counter is \<open>wg\<close> and the requests \<open>rs\<close> are still to
  come: it returns when the counter is zero, at the call or after one of these requests.\<close>

fun Wait :: "string \<Rightarrow> string \<Rightarrow> int \<Rightarrow> request list \<Rightarrow> bool" where
  "Wait filename buf wg [] = (wg = 0)"
| "Wait filename buf wg (r # rs) =
     (wg = 0 \<or> Wait filename buf (snd (handler filename buf wg r)) rs)"

subsection \<open>\<^verbatim>\<open>open\<close>\<close>

text \<open>
  The servers of the process: no line of \<^verbatim>\<open>main.go\<close> closes a listener or shuts a server
  down, so a server that was started is there until the process ends. \<open>Served\<close> is what it
  answered and \<open>Wg\<close> the counter after its requests.
\<close>

record server =
  Port :: nat
  Filename :: string
  Buf :: string
  Wg :: int
  Served :: "response list"

record proc =
  servers :: "server list"
  commands :: "string list"
  stdout :: "string list"

datatype open_result = Returned "error option" | Blocked

text \<open>Lines 94 to 144. \<open>PathEscape\<close> is \<^verbatim>\<open>url.PathEscape\<close>, a parameter; \<open>Blocked\<close> is a
  \<^verbatim>\<open>wg.Wait()\<close> that never returns. \<^verbatim>\<open>wg.Wait()\<close> is called after \<^verbatim>\<open>cmd.Run()\<close> has returned,
  with the counter that the requests handled until then have left.\<close>

definition open_pdf :: "(string \<Rightarrow> string) \<Rightarrow> os_env \<Rightarrow> string \<Rightarrow> int \<Rightarrow> proc \<Rightarrow> open_result \<times> proc" where
  "open_pdf PathEscape env path page st =
     (case ReadFile env of
        Inl err \<Rightarrow> (Returned (Some err), st)
      | Inr buf \<Rightarrow>
          (case Listen env of
             Inl err \<Rightarrow> (Returned (Some err), st)
           | Inr port \<Rightarrow>
               let wg = 0 + 1;
                   filename = Base path;
                   early = take (before_run env) (requests env);
                   late = drop (before_run env) (requests env);
                   url = ''http://127.0.0.1:'' @ Itoa (int port) @ ''/'' @ PathEscape filename
                         @ ''#page='' @ Itoa page;
                   srv = \<lparr>Port = port, Filename = filename, Buf = buf,
                          Wg = snd (serve filename buf wg (requests env)),
                          Served = fst (serve filename buf wg (requests env))\<rparr>;
                   st' = st\<lparr>servers := srv # servers st, commands := commands st @ [url]\<rparr>
               in (case Run env of
                     Some err \<Rightarrow> (Returned (Some err), st')
                   | None \<Rightarrow>
                       if Wait filename buf (snd (serve filename buf wg early)) late
                       then (Returned None, st')
                       else (Blocked, st'))))"

subsection \<open>\<^verbatim>\<open>main\<close>: trying the candidates\<close>

text \<open>The argument of \<^verbatim>\<open>open\<close> in line 69, \<^verbatim>\<open>rnd.Intn(nPages)+1\<close>.\<close>

definition pick_page :: "Rand \<Rightarrow> int \<Rightarrow> panic + (int \<times> Rand)" where
  "pick_page r nPages =
     (case Intn r nPages of
        Inl p \<Rightarrow> Inl p
      | Inr (v, r') \<Rightarrow> Inr (v + 1, r'))"

datatype outcome = Exit nat | Panicked panic | Hang

text \<open>
  The loop of lines 60 to 78. \<open>world k path\<close> is what the operating system does when
  \<open>path\<close> is the \<open>k\<close>-th candidate tried.
\<close>

fun driver :: "(string \<Rightarrow> string) \<Rightarrow> (nat \<Rightarrow> string \<Rightarrow> os_env) \<Rightarrow> nat \<Rightarrow> Rand \<Rightarrow> string list \<Rightarrow> proc
      \<Rightarrow> outcome \<times> proc" where
  "driver PathEscape world k r [] st =
     (Exit 1, st\<lparr>stdout := stdout st @ [''Could not find a usable PDF'']\<rparr>)"
| "driver PathEscape world k r (path # rest) st =
     (case countPages (world k path) path of
        (nPages, Some err) \<Rightarrow> driver PathEscape world (Suc k) r rest st
      | (nPages, None) \<Rightarrow>
          (case pick_page r nPages of
             Inl p \<Rightarrow> (Panicked p, st)
           | Inr (page, r') \<Rightarrow>
               (case open_pdf PathEscape (world k path) path page st of
                  (Returned (Some err), st') \<Rightarrow> driver PathEscape world (Suc k) r' rest st'
                | (Returned None, st') \<Rightarrow> (Exit 0, st')
                | (Blocked, st') \<Rightarrow> (Hang, st'))))"

text \<open>\<^verbatim>\<open>main\<close>, lines 26 to 79.\<close>

definition main :: "(string \<Rightarrow> string \<Rightarrow> string) \<Rightarrow> (string \<Rightarrow> fsnode option) \<Rightarrow> (string \<Rightarrow> string)
      \<Rightarrow> (nat \<Rightarrow> string \<Rightarrow> os_env) \<Rightarrow> Rand \<Rightarrow> string list \<Rightarrow> string \<Rightarrow> outcome \<times> proc" where
  "main join lstat PathEscape world rnd args input =
     (let c = collect join lstat args \<lparr>pdfs = [], stdin = input, printed = []\<rparr>;
          st = \<lparr>servers = [], commands = [], stdout = printed c\<rparr>
      in (case Shuffle rnd (int (length (pdfs c))) (pdfs c) of
            Inl p \<Rightarrow> (Panicked p, st)
          | Inr (shuffled, rnd') \<Rightarrow> driver PathEscape world 0 rnd' shuffled st))"

subsection \<open>What a traversal meets\<close>

text \<open>
  The properties of the collection are stated against the tree itself, read without
  \<^verbatim>\<open>WalkDir\<close>: \<open>events join path node\<close> lists, in the order of a recursive traversal, every
  entry below \<open>path\<close> with its path (\<open>Seen\<close>) and, after a directory that cannot be read, the
  failure (\<open>Failed\<close>). \<open>wanted\<close> holds of a regular file whose lower-cased name ends in
  \<^verbatim>\<open>.pdf\<close>.
\<close>

datatype walk_event = Seen string DirEntry | Failed string

fun is_Seen :: "walk_event \<Rightarrow> bool" where
  "is_Seen (Seen p d) = True"
| "is_Seen (Failed p) = False"

fun event_path :: "walk_event \<Rightarrow> string" where
  "event_path (Seen p d) = p"
| "event_path (Failed p) = p"

fun wanted :: "walk_event \<Rightarrow> bool" where
  "wanted (Seen p d) = (IsRegular (Type d) \<and> HasSuffix (ToLower (Name d)) ''.pdf'')"
| "wanted (Failed p) = False"

fun events :: "(string \<Rightarrow> string \<Rightarrow> string) \<Rightarrow> string \<Rightarrow> fsnode \<Rightarrow> walk_event list"
  and events_of :: "(string \<Rightarrow> string \<Rightarrow> string) \<Rightarrow> string \<Rightarrow> fsnode list \<Rightarrow> walk_event list" where
  "events join path (File n t) = [Seen path (node_entry (File n t))]"
| "events join path (UnreadableDir n) = [Seen path (node_entry (UnreadableDir n)), Failed path]"
| "events join path (Dir n cs) = Seen path (node_entry (Dir n cs)) # events_of join path cs"
| "events_of join path [] = []"
| "events_of join path (c # cs) =
     events join (join path (Name (node_entry c))) c @ events_of join path cs"

text \<open>A tree in which every directory can be read.\<close>

fun readable :: "fsnode \<Rightarrow> bool" where
  "readable (File n t) = True"
| "readable (UnreadableDir n) = False"
| "readable (Dir n cs) = list_all readable cs"

text \<open>A request for the served file whose writes are accepted to the last byte of the
  buffer.\<close>

definition completes :: "string \<Rightarrow> string \<Rightarrow> request \<Rightarrow> bool" where
  "completes filename buf r =
     (Path r = ''/'' @ filename \<and> fst (write_loop (Writes r) buf []) = LoopDone)"

text \<open>An attempt that binds its server and then fails to start the viewer.\<close>

definition launch_fails :: "os_env \<Rightarrow> bool" where
  "launch_fails env = (\<not> isl (ReadFile env) \<and> \<not> isl (Listen env) \<and> Run env \<noteq> None)"

text \<open>Reading a decimal number back, to say what a \<^verbatim>\<open>Content-Length\<close> header means.\<close>

definition digit_value :: "char \<Rightarrow> nat" where
  "digit_value c =
     (case map_of (zip ''0123456789'' [0, 1, 2, 3, 4, 5, 6, 7, 8, 9]) c of
        Some v \<Rightarrow> v
      | None \<Rightarrow> 0)"

definition Atoi :: "string \<Rightarrow> nat" where
  "Atoi s = foldl (\<lambda>a c. 10 * a + digit_value c) 0 s"

subsection \<open>Inputs of the examples\<close>

definition slash :: "string \<Rightarrow> string \<Rightarrow> string" where
  "slash p n = p @ ''/'' @ n"

definition docs_tree :: fsnode where
  "docs_tree =
     Dir ''docs''
       [File ''a.PDF'' Regular, File ''b.txt'' Regular,
        Dir ''sub'' [File ''c.pdf'' Regular, File ''d.pdf'' Symlink]]"

definition torn_tree :: fsnode where
  "torn_tree =
     Dir ''docs'' [File ''a.pdf'' Regular, UnreadableDir ''locked'', File ''z.pdf'' Regular]"

definition more_tree :: fsnode where
  "more_tree = Dir ''more'' [File ''ok.pdf'' Regular]"

definition empty_collector :: collector where
  "empty_collector = \<lparr>pdfs = [], stdin = [], printed = []\<rparr>"

definition no_proc :: proc where
  "no_proc = \<lparr>servers = [], commands = [], stdout = []\<rparr>"

definition get_ok :: request where
  "get_ok = \<lparr>Method = ''GET'', Path = ''/a.pdf'', Writes = [Wrote 3]\<rparr>"

definition get_torn :: request where
  "get_torn = \<lparr>Method = ''GET'', Path = ''/a.pdf'', Writes = [WriteFailed 1, Wrote 2]\<rparr>"

definition get_favicon :: request where
  "get_favicon = \<lparr>Method = ''GET'', Path = ''/favicon.ico'', Writes = []\<rparr>"

definition env_a :: "request list \<Rightarrow> error option \<Rightarrow> os_env" where
  "env_a rs run =
     \<lparr>ReadContextFile = Inr 3, ReadFile = Inr ''abc'', Listen = Inr 5001, Run = run,
      requests = rs, before_run = 0\<rparr>"

definition env_b :: os_env where
  "env_b =
     \<lparr>ReadContextFile = Inr 2, ReadFile = Inr ''xyz'', Listen = Inr 5002, Run = None,
      requests = [\<lparr>Method = ''GET'', Path = ''/b.pdf'', Writes = [Wrote 3]\<rparr>], before_run = 0\<rparr>"

definition env_corrupt :: os_env where
  "env_corrupt =
     \<lparr>ReadContextFile = Inl ReadContextFileError, ReadFile = Inr ''???'', Listen = Inr 5003,
      Run = None, requests = [], before_run = 0\<rparr>"

definition env_zero :: os_env where
  "env_zero =
     \<lparr>ReadContextFile = Inr 0, ReadFile = Inr ''%PDF'', Listen = Inr 5004, Run = None,
      requests = [], before_run = 0\<rparr>"

definition big_file :: string where
  "big_file = replicate 3000 (CHR ''x'')"

definition get_big :: request where
  "get_big = \<lparr>Method = ''GET'', Path = ''/a.pdf'', Writes = [Wrote 3000]\<rparr>"

definition get_big_torn :: request where
  "get_big_torn = \<lparr>Method = ''GET'', Path = ''/a.pdf'', Writes = [WriteFailed 1000]\<rparr>"

definition head_ok :: request where
  "head_ok = \<lparr>Method = ''HEAD'', Path = ''/a.pdf'', Writes = [Wrote 3]\<rparr>"

definition env_big :: os_env where
  "env_big =
     \<lparr>ReadContextFile = Inr 3, ReadFile = Inr big_file, Listen = Inr 5001, Run = None,
      requests = [get_big, get_big], before_run = 2\<rparr>"

definition locked_first_tree :: fsnode where
  "locked_first_tree = Dir ''papers'' [UnreadableDir ''drafts'', File ''final.pdf'' Regular]"

definition two_worlds :: "os_env \<Rightarrow> os_env \<Rightarrow> nat \<Rightarrow> string \<Rightarrow> os_env" where
  "two_worlds e1 e2 k path = (if k = 0 then e1 else e2)"

definition count_up :: Rand where
  "count_up k = k"

section \<open>Properties\<close>

subsection \<open>Collecting the candidates\<close>

text \<open>
  What the function of \<^verbatim>\<open>main\<close> makes of a walk, for every tree: the walk goes through the
  events of the tree up to the first failure, appends the path of every wanted entry it
  sees, and returns an error exactly when there is a failure.
\<close>

lemma walk_fn_events:
  "walkDir walk_fn join path node ps =
     (if list_all is_Seen (events join path node) then None else Some ReadDirError,
      ps @ map event_path (filter wanted (takeWhile is_Seen (events join path node))))"
  "walkDirs walk_fn join path cs ps =
     (if list_all is_Seen (events_of join path cs) then None else Some ReadDirError,
      ps @ map event_path (filter wanted (takeWhile is_Seen (events_of join path cs))))"
proof (induction walk_fn join path node ps and walk_fn join path cs ps
    rule: walkDir_walkDirs.induct)
  case (1 join path n t s)
  then show ?case by simp
next
  case (2 join path n s)
  then show ?case by (simp add: IsRegular_def)
next
  case (3 join path n cs s)
  then show ?case by (simp add: IsRegular_def)
next
  case (4 join path s)
  then show ?case by simp
next
  case (5 join path c cs s)
  let ?E = "events join (join path (Name (node_entry c))) c"
  let ?Es = "events_of join path cs"
  let ?m = "\<lambda>evs. map event_path (filter wanted evs)"
  have hd: "walkDir walk_fn join (join path (Name (node_entry c))) c s =
      (if list_all is_Seen ?E then None else Some ReadDirError, s @ ?m (takeWhile is_Seen ?E))"
    by (rule 5(1))
  show ?case
  proof (cases "list_all is_Seen ?E")
    case True
    then have all: "\<forall>x\<in>set ?E. is_Seen x" by (simp add: list_all_iff)
    then have tw: "takeWhile is_Seen ?E = ?E" by (simp add: takeWhile_eq_all_conv)
    from hd True tw have w: "walkDir walk_fn join (join path (Name (node_entry c))) c s =
        (None, s @ ?m ?E)" by simp
    have tl: "walkDirs walk_fn join path cs (s @ ?m ?E) =
        (if list_all is_Seen ?Es then None else Some ReadDirError,
         (s @ ?m ?E) @ ?m (takeWhile is_Seen ?Es))"
      using 5(2) [OF w [symmetric]] by simp
    have app: "takeWhile is_Seen (?E @ ?Es) = ?E @ takeWhile is_Seen ?Es"
      using all by (simp add: takeWhile_append2)
    show ?thesis using w tl app True by simp
  next
    case False
    then obtain x where x: "x \<in> set ?E" "\<not> is_Seen x" by (auto simp: list_all_iff)
    then have app: "takeWhile is_Seen (?E @ ?Es) = takeWhile is_Seen ?E"
      by (simp add: takeWhile_append1)
    from hd False have w: "walkDir walk_fn join (join path (Name (node_entry c))) c s =
        (Some ReadDirError, s @ ?m (takeWhile is_Seen ?E))" by simp
    show ?thesis using w app False by simp
  qed
qed

lemma readable_events:
  "readable node \<Longrightarrow> list_all is_Seen (events join path node)"
  "list_all readable cs \<Longrightarrow> list_all is_Seen (events_of join path cs)"
  by (induction join path node and join path cs rule: events_events_of.induct) auto

lemma walk_arg_events:
  "walk_arg join lstat arg st =
     st\<lparr>pdfs := pdfs st @
        (case lstat arg of
           None \<Rightarrow> []
         | Some node \<Rightarrow>
             map event_path (filter wanted (takeWhile is_Seen (events join arg node))))\<rparr>"
  by (cases "lstat arg") (simp_all add: walk_arg_def WalkDir_def walk_fn_events)

text \<open>Every token of the scanner is appended, and an empty input gives no token and no
  message.\<close>

lemma read_stdin_tokens: "pdfs (read_stdin st) = pdfs st @ fst (scan [] (stdin st))"
  by (simp add: read_stdin_def split: prod.splits)

lemma read_stdin_empty: "stdin st = [] \<Longrightarrow> read_stdin st = st"
  by (simp add: read_stdin_def)

text \<open>
  C4. The claim: for the argument \<^verbatim>\<open>-\<close>, the entries collected from standard input are
  exactly the lines whose lower-cased text ends in \<^verbatim>\<open>.pdf\<close>, every other line is dropped, and
  an empty input gives no entry and no error. The branch of lines 30 to 39 appends every
  line the scanner returns and tests no suffix, while the branch for a path (line 47) does
  test it, as does \<^verbatim>\<open>readLines\<close> in a later revision of the program. On the two lines
  \<^verbatim>\<open>a.pdf\<close> and \<^verbatim>\<open>notes.txt\<close> the candidates are both lines, where the claim keeps the first
  only.
\<close>

theorem stdin_lines_not_filtered:
  "pdfs (collect slash Map.empty [''-'']
          \<lparr>pdfs = [], stdin = ''a.pdf'' @ [CHR 0x0A] @ ''notes.txt'' @ [CHR 0x0A], printed = []\<rparr>)
     = [''a.pdf'', ''notes.txt'']
   \<and> filter (\<lambda>line. HasSuffix (ToLower line) ''.pdf'') [''a.pdf'', ''notes.txt''] = [''a.pdf'']"
  by (simp add: read_stdin_def dropCR_def MaxScanTokenSize_def HasSuffix_def ToLower_def
      ToLowerChar_def)

text \<open>
  C5. The claim: for every argument that is not \<^verbatim>\<open>-\<close>, the candidates collected from it are
  exactly the regular files met by a recursive traversal from that argument whose
  lower-cased name ends in \<^verbatim>\<open>.pdf\<close>. The walk ends at the first directory that cannot be read
  (lines 42 to 44): below \<^verbatim>\<open>papers\<close>, with the unreadable directory \<^verbatim>\<open>drafts\<close> before
  \<^verbatim>\<open>final.pdf\<close>, nothing is collected, though \<^verbatim>\<open>final.pdf\<close> is a regular file of the argument
  and lies outside \<^verbatim>\<open>drafts\<close>.
\<close>

theorem walk_every_argument_counterexample:
  "[''papers'' \<mapsto> locked_first_tree] ''papers'' = Some locked_first_tree \<and>
   pdfs (walk_arg slash [''papers'' \<mapsto> locked_first_tree] ''papers'' empty_collector) = [] \<and>
   map event_path (filter wanted (events slash ''papers'' locked_first_tree))
     = [''papers/final.pdf''] \<and>
   pdfs (walk_arg slash [''papers'' \<mapsto> locked_first_tree] ''papers'' empty_collector)
     \<noteq> map event_path (filter wanted (events slash ''papers'' locked_first_tree))"
  by (simp add: walk_arg_def WalkDir_def locked_first_tree_def empty_collector_def slash_def
      IsRegular_def HasSuffix_def ToLower_def ToLowerChar_def)

text \<open>
  C5, as the code has it: for an argument that is not \<^verbatim>\<open>-\<close> and whose traversal meets no
  error (the argument exists and every directory below it can be read), the candidates
  collected from it are exactly the regular files met by a recursive traversal from that
  argument whose lower-cased name ends in \<^verbatim>\<open>.pdf\<close>, in the order of the traversal; an entry
  that is not a regular file and a file with another extension are left out.
\<close>

theorem walk_collects_regular_pdfs:
  assumes "lstat arg = Some node" and "readable node"
  shows "pdfs (walk_arg join lstat arg st) =
           pdfs st @ map event_path (filter wanted (events join arg node))"
proof -
  have "list_all is_Seen (events join arg node)" using assms(2) by (rule readable_events)
  then have tw: "takeWhile is_Seen (events join arg node) = events join arg node"
    by (simp add: takeWhile_eq_all_conv list_all_iff)
  show ?thesis by (simp add: walk_arg_events assms(1) tw)
qed

theorem walk_collects_regular_pdfs_witness:
  "[''docs'' \<mapsto> docs_tree] ''docs'' = Some docs_tree \<and> readable docs_tree \<and>
   pdfs (walk_arg slash [''docs'' \<mapsto> docs_tree] ''docs'' empty_collector)
     = [''docs/a.PDF'', ''docs/sub/c.pdf'']"
  using walk_collects_regular_pdfs [of "[''docs'' \<mapsto> docs_tree]" "''docs''" docs_tree
      slash empty_collector]
  by (simp add: docs_tree_def empty_collector_def slash_def IsRegular_def HasSuffix_def
      ToLower_def ToLowerChar_def)

text \<open>
  C6. The claim: a traversal error on a subtree aborts the contribution of that subtree
  only, and the rest of the traversal of the argument still contributes. The function of
  \<^verbatim>\<open>main\<close> returns the error it is given (lines 42 to 44), and \<^verbatim>\<open>WalkDir\<close> stops the whole
  walk at a function that returns an error. With a directory \<^verbatim>\<open>locked\<close> that cannot be
  read between \<^verbatim>\<open>a.pdf\<close> and \<^verbatim>\<open>z.pdf\<close>, the walk collects \<^verbatim>\<open>a.pdf\<close> and never reaches
  \<^verbatim>\<open>z.pdf\<close>, a file outside the failing subtree.
\<close>

theorem walk_error_subtree_only_counterexample:
  "pdfs (walk_arg slash [''docs'' \<mapsto> torn_tree] ''docs'' empty_collector) = [''docs/a.pdf'']
   \<and> map event_path (filter wanted (events slash ''docs'' torn_tree))
       = [''docs/a.pdf'', ''docs/z.pdf'']
   \<and> pdfs (walk_arg slash [''docs'' \<mapsto> torn_tree] ''docs'' empty_collector)
       \<noteq> map event_path (filter wanted (events slash ''docs'' torn_tree))"
  by (simp add: walk_arg_def WalkDir_def torn_tree_def empty_collector_def slash_def
      IsRegular_def HasSuffix_def ToLower_def ToLowerChar_def)

text \<open>
  C6, as the code has it: a traversal error ends the walk of that argument. The argument
  contributes the wanted files met before the error and none after it (nothing at all when
  the argument itself cannot be examined); the error is dropped, nothing is printed and
  nothing panics; and the arguments that follow are collected as usual.
\<close>

theorem walk_error_ends_walk:
  "walk_arg join lstat arg st =
     st\<lparr>pdfs := pdfs st @
        (case lstat arg of
           None \<Rightarrow> []
         | Some node \<Rightarrow>
             map event_path (filter wanted (takeWhile is_Seen (events join arg node))))\<rparr>
   \<and> (arg \<noteq> ''-'' \<longrightarrow>
        collect join lstat (arg # args) st = collect join lstat args (walk_arg join lstat arg st))"
  by (simp add: walk_arg_events)

theorem walk_error_ends_walk_witness:
  "''docs'' \<noteq> ''-'' \<and>
   pdfs (walk_arg slash [''docs'' \<mapsto> torn_tree, ''more'' \<mapsto> more_tree] ''docs'' empty_collector)
     = [''docs/a.pdf''] \<and>
   collect slash [''docs'' \<mapsto> torn_tree, ''more'' \<mapsto> more_tree] [''docs'', ''more'']
     empty_collector
     = \<lparr>pdfs = [''docs/a.pdf'', ''more/ok.pdf''], stdin = [], printed = []\<rparr>"
  using walk_error_ends_walk [of slash "[''docs'' \<mapsto> torn_tree, ''more'' \<mapsto> more_tree]"
      "''docs''" empty_collector "[''more'']"]
  by (simp add: walk_arg_def WalkDir_def torn_tree_def more_tree_def empty_collector_def
      slash_def IsRegular_def HasSuffix_def ToLower_def ToLowerChar_def)

subsection \<open>The shuffle\<close>

lemma swap_perm:
  "i < length xs \<Longrightarrow> j < length xs \<Longrightarrow>
     \<exists>ys. swap i j xs = Inr ys \<and> mset ys = mset xs \<and> length ys = length xs"
  by (simp add: swap_def mset_swap)

lemma shuffle_loop_perm:
  "i < length xs \<Longrightarrow> \<exists>ys r'. shuffle_loop r i xs = Inr (ys, r') \<and> mset ys = mset xs"
proof (induction i arbitrary: r xs)
  case 0
  then show ?case by simp
next
  case (Suc i)
  obtain j r' where b: "below r (Suc i + 1) = (j, r')" by (cases "below r (Suc i + 1)")
  then have "j < Suc i + 1" by (auto simp: below_def)
  then have j: "j < length xs" using Suc.prems by simp
  from swap_perm [OF Suc.prems j] obtain ys where
    ys: "swap (Suc i) j xs = Inr ys" "mset ys = mset xs" "length ys = length xs" by blast
  have "i < length ys" using ys(3) Suc.prems by simp
  from Suc.IH [OF this, of r'] obtain zs r'' where
    "shuffle_loop r' i ys = Inr (zs, r'')" "mset zs = mset ys" by blast
  then show ?case using b ys by simp
qed

text \<open>
  C7. The shuffle of lines 55 to 58 is a permutation: whatever the random source draws, the
  call \<^verbatim>\<open>rnd.Shuffle(len(pdfs), ...)\<close> returns without a panic, and the list after it has the
  same multiset of elements as the list before it, so every element is there as many times
  as before, and the length is unchanged.
\<close>

theorem shuffle_is_permutation:
  "\<exists>ys r'. Shuffle r (int (length xs)) xs = Inr (ys, r') \<and> mset ys = mset xs \<and>
      length ys = length xs \<and> (\<forall>x. count_list ys x = count_list xs x)"
proof (cases xs)
  case Nil
  then show ?thesis by (simp add: Shuffle_def)
next
  case (Cons a list)
  then have "length xs - 1 < length xs" by simp
  from shuffle_loop_perm [OF this, of r] obtain ys r' where
    h: "shuffle_loop r (length xs - 1) xs = Inr (ys, r')" "mset ys = mset xs" by blast
  have "length ys = length xs" using h(2) by (metis size_mset)
  moreover have "\<forall>x. count_list ys x = count_list xs x" using h(2) by (metis count_mset)
  ultimately show ?thesis using h by (auto simp: Shuffle_def)
qed

subsection \<open>The page\<close>

lemma Intn_range: "0 < n \<Longrightarrow> \<exists>v r'. Intn r n = Inr (v, r') \<and> 0 \<le> v \<and> v < n"
proof -
  assume n: "0 < n"
  have "r 0 mod nat n < nat n" using n by simp
  then have "int (r 0 mod nat n) < n" using n by linarith
  then show ?thesis using n by (simp add: Intn_def below_def)
qed

text \<open>
  C3. When the page count of the candidate at the head of the list is looked up with
  success and is \<open>p \<ge> 1\<close>, the driver calls \<^verbatim>\<open>open\<close> with a page between \<open>1\<close> and \<open>p\<close>,
  whatever the random source draws, and with page \<open>1\<close> when \<open>p = 1\<close>: the run of the driver
  is the call of \<^verbatim>\<open>open\<close> on that page, followed by what the driver does with its result.
\<close>

theorem chosen_page_in_range:
  assumes "countPages (world k path) path = (p, None)" and "1 \<le> p"
  shows "\<exists>page r'. 1 \<le> page \<and> page \<le> p \<and> (p = 1 \<longrightarrow> page = 1) \<and>
           pick_page r p = Inr (page, r') \<and>
           driver PathEscape world k r (path # rest) st =
             (case open_pdf PathEscape (world k path) path page st of
                (Returned (Some err), st') \<Rightarrow> driver PathEscape world (Suc k) r' rest st'
              | (Returned None, st') \<Rightarrow> (Exit 0, st')
              | (Blocked, st') \<Rightarrow> (Hang, st'))"
proof -
  from assms(2) have "0 < p" by simp
  from Intn_range [OF this, of r] obtain v r' where
    v: "Intn r p = Inr (v, r')" "0 \<le> v" "v < p" by blast
  then have pp: "pick_page r p = Inr (v + 1, r')" by (simp add: pick_page_def)
  have "1 \<le> v + 1" "v + 1 \<le> p" "p = 1 \<longrightarrow> v + 1 = 1" using v by auto
  moreover have "driver PathEscape world k r (path # rest) st =
             (case open_pdf PathEscape (world k path) path (v + 1) st of
                (Returned (Some err), st') \<Rightarrow> driver PathEscape world (Suc k) r' rest st'
              | (Returned None, st') \<Rightarrow> (Exit 0, st')
              | (Blocked, st') \<Rightarrow> (Hang, st'))"
    using assms(1) pp by simp
  ultimately show ?thesis using pp by blast
qed

theorem chosen_page_in_range_witness:
  "countPages (two_worlds (env_a [get_ok] None) env_b 0 ''a.pdf'') ''a.pdf'' = (3, None) \<and>
   (1::int) \<le> 3 \<and>
   pick_page count_up 3 = Inr (1, \<lambda>k. count_up (Suc k)) \<and>
   commands (snd (driver id (two_worlds (env_a [get_ok] None) env_b) 0 count_up [''a.pdf'']
       no_proc))
     = [''http://127.0.0.1:5001/a.pdf#page=1'']"
  using chosen_page_in_range [where world = "two_worlds (env_a [get_ok] None) env_b" and k = 0
      and path = "''a.pdf''" and p = 3 and r = count_up and PathEscape = id and rest = "[]"
      and st = no_proc]
  by (simp add: two_worlds_def env_a_def countPages_def pick_page_def Intn_def below_def
      count_up_def open_pdf_def Let_def get_ok_def handler_def handlerFunc_def wire_def Done_def no_proc_def Base_def
      Itoa_def digits.simps)

text \<open>
  C10. When \<^verbatim>\<open>countPages\<close> succeeds with a page count of \<open>0\<close>, \<^verbatim>\<open>rnd.Intn(0)\<close> panics and the
  process ends there, whatever candidates are left; only a lookup that returns an error
  makes the driver drop the candidate and go on with the next one.
\<close>

theorem zero_pages_panics:
  "(ReadContextFile (world k path) = Inr 0 \<longrightarrow>
      driver PathEscape world k r (path # rest) st = (Panicked InvalidArgumentToIntn, st)) \<and>
   (ReadContextFile (world k path) = Inl err \<longrightarrow>
      driver PathEscape world k r (path # rest) st = driver PathEscape world (Suc k) r rest st)"
  by (simp add: countPages_def pick_page_def Intn_def)

theorem zero_pages_panics_witness:
  "ReadContextFile (two_worlds env_zero env_b 0 ''empty.pdf'') = Inr 0 \<and>
   ReadContextFile (two_worlds env_corrupt env_b 0 ''bad.pdf'') = Inl ReadContextFileError \<and>
   fst (driver id (two_worlds env_zero env_b) 0 count_up [''empty.pdf'', ''b.pdf''] no_proc)
     = Panicked InvalidArgumentToIntn \<and>
   fst (driver id (two_worlds env_corrupt env_b) 0 count_up [''bad.pdf'', ''b.pdf''] no_proc)
     = Exit 0"
  using zero_pages_panics [where world = "two_worlds env_zero env_b" and k = 0
      and path = "''empty.pdf''" and PathEscape = id and r = count_up and rest = "[''b.pdf'']"
      and st = no_proc]
    zero_pages_panics [where world = "two_worlds env_corrupt env_b" and k = 0
      and path = "''bad.pdf''" and PathEscape = id and r = count_up and rest = "[''b.pdf'']"
      and st = no_proc and err = ReadContextFileError]
  by (simp add: two_worlds_def env_zero_def env_corrupt_def env_b_def countPages_def
      pick_page_def Intn_def below_def count_up_def open_pdf_def Let_def handler_def handlerFunc_def wire_def Done_def
      no_proc_def Base_def)

subsection \<open>The handler\<close>

lemma digit_value_nth: "k < 10 \<Longrightarrow> digit_value (''0123456789'' ! k) = k"
proof -
  assume "k < 10"
  then have "k \<in> {0, 1, 2, 3, 4, 5, 6, 7, 8, 9}" by auto
  then show ?thesis by (auto simp: digit_value_def)
qed

lemma Atoi_digits: "Atoi (digits n) = n"
proof (induction n rule: digits.induct)
  case (1 n)
  show ?case
  proof (cases "n < 10")
    case True
    then show ?thesis by (subst digits.simps) (simp add: Atoi_def digit_value_nth)
  next
    case False
    have "Atoi (digits n) = Atoi (digits (n div 10) @ [''0123456789'' ! (n mod 10)])"
      using False by (subst digits.simps) simp
    also have "\<dots> = 10 * Atoi (digits (n div 10)) + digit_value (''0123456789'' ! (n mod 10))"
      by (simp add: Atoi_def)
    also have "\<dots> = 10 * (n div 10) + n mod 10"
      using 1 [OF False] by (simp add: digit_value_nth)
    finally show ?thesis by simp
  qed
qed

lemma Atoi_Itoa: "Atoi (Itoa (int n)) = n"
  by (simp add: Itoa_def Atoi_digits)

text \<open>The loop sends the bytes of the buffer in order, none twice and none skipped.\<close>

lemma write_loop_sent:
  "write_loop ws buf sent = (e, out) \<Longrightarrow>
     \<exists>taken. out = sent @ taken \<and> prefix taken buf \<and> (e = LoopDone \<longrightarrow> taken = buf)"
proof (induction ws buf sent rule: write_loop.induct)
  case (1 ws sent)
  then show ?case by auto
next
  case (2 b bs sent)
  then show ?case by auto
next
  case (3 n ws b bs sent)
  then show ?case by (auto simp: take_is_prefix)
next
  case (4 n ws b bs sent)
  show ?case
  proof (cases "length (b # bs) < n")
    case True
    with 4 show ?thesis by auto
  next
    case False
    with 4(2) have "write_loop ws (drop n (b # bs)) (sent @ take n (b # bs)) = (e, out)" by simp
    from 4(1) [OF False this] obtain taken where t: "out = (sent @ take n (b # bs)) @ taken"
      "prefix taken (drop n (b # bs))" "e = LoopDone \<longrightarrow> taken = drop n (b # bs)" by blast
    have "prefix (take n (b # bs) @ taken) (take n (b # bs) @ drop n (b # bs))"
      using t(2) by (simp only: same_prefix_prefix)
    then have "prefix (take n (b # bs) @ taken) (b # bs)" by (simp only: append_take_drop_id)
    moreover have "e = LoopDone \<longrightarrow> take n (b # bs) @ taken = b # bs"
      using t(3) by (metis append_take_drop_id)
    ultimately show ?thesis using t(1) by (intro exI [of _ "take n (b # bs) @ taken"]) simp
  qed
qed

lemma write_loop_body:
  "prefix (snd (write_loop ws buf [])) buf"
  "fst (write_loop ws buf []) = LoopDone \<Longrightarrow> snd (write_loop ws buf []) = buf"
proof -
  obtain e out where w: "write_loop ws buf [] = (e, out)" by (cases "write_loop ws buf []")
  from write_loop_sent [OF w] have p: "prefix out buf" "e = LoopDone \<longrightarrow> out = buf" by auto
  show "prefix (snd (write_loop ws buf [])) buf" using w p(1) by simp
  show "fst (write_loop ws buf []) = LoopDone \<Longrightarrow> snd (write_loop ws buf []) = buf"
    using w p(2) by simp
qed

text \<open>A \<^verbatim>\<open>Write\<close> that accepts the whole buffer at the first call, as the contract of
  \<^verbatim>\<open>io.Writer\<close> asks of a call without error, ends the loop.\<close>

lemma write_loop_all: "write_loop (Wrote (length buf) # ws) buf sent = (LoopDone, sent @ buf)"
  by (cases buf) auto

lemma write_loop_failed:
  "buf \<noteq> [] \<Longrightarrow> write_loop (WriteFailed n # ws) buf sent = (LoopError, sent @ take n buf)"
  by (cases buf) auto

text \<open>The function literal, case by case.\<close>

lemma handlerFunc_other_path:
  "Path r \<noteq> ''/'' @ filename \<Longrightarrow> handlerFunc filename buf wg r = (NotFound, wg)"
  by (simp add: handlerFunc_def)

lemma handlerFunc_match:
  assumes "Path r = ''/'' @ filename"
  shows "Status (fst (handlerFunc filename buf wg r)) = Some 200"
    and "Header (fst (handlerFunc filename buf wg r)) ''Content-Type'' = Some ''application/pdf''"
    and "Header (fst (handlerFunc filename buf wg r)) ''Content-Length''
           = Some (Itoa (int (length buf)))"
    and "Body (fst (handlerFunc filename buf wg r)) = snd (write_loop (Writes r) buf [])"
    and "snd (handlerFunc filename buf wg r) =
           (if fst (write_loop (Writes r) buf []) = LoopDone then wg - 1 else wg)"
    and "Ends (fst (handlerFunc filename buf wg r)) =
           (case fst (write_loop (Writes r) buf []) of
              LoopDone \<Rightarrow> if wg - 1 < 0 then Panics NegativeWaitGroupCounter else Returns
            | LoopError \<Rightarrow> Returns
            | LoopPanic \<Rightarrow> Panics SliceBoundsOutOfRange
            | LoopStall \<Rightarrow> Stalls)"
  using assms
  by (cases "write_loop (Writes r) buf []"; cases "fst (write_loop (Writes r) buf [])";
      simp add: handlerFunc_def Done_def Let_def)+

text \<open>The handler as the server runs it.\<close>

lemma handler_parts:
  "snd (handler filename buf wg r) = snd (handlerFunc filename buf wg r)"
  "Ends (fst (handler filename buf wg r)) = Ends (fst (handlerFunc filename buf wg r))"
  "fst (handler filename buf wg r) = wire buf r (fst (handlerFunc filename buf wg r))"
  by (simp_all add: handler_def wire_def split: prod.splits)

lemma handler_other_path:
  "Path r \<noteq> ''/'' @ filename \<Longrightarrow>
     Status (fst (handler filename buf wg r)) = Some 404 \<and> snd (handler filename buf wg r) = wg"
  by (simp add: handler_def handlerFunc_other_path wire_def NotFound_def)

lemma handler_body_prefix:
  "Path r = ''/'' @ filename \<Longrightarrow> prefix (Body (fst (handler filename buf wg r))) buf"
  by (simp add: handler_parts(3) wire_def handlerFunc_match write_loop_body)

lemma handler_sent:
  assumes "Path r = ''/'' @ filename"
    and "Ends (fst (handler filename buf wg r)) = Returns \<or> bufferBeforeChunkingSize < length buf"
  shows "Status (fst (handler filename buf wg r)) = Some 200"
    and "Header (fst (handler filename buf wg r)) ''Content-Type'' = Some ''application/pdf''"
    and "Header (fst (handler filename buf wg r)) ''Content-Length''
           = Some (Itoa (int (length buf)))"
    and "Body (fst (handler filename buf wg r)) =
           (if Method r = ''HEAD'' then [] else snd (write_loop (Writes r) buf []))"
proof -
  have e: "Ends (fst (handlerFunc filename buf wg r)) = Returns \<or>
      bufferBeforeChunkingSize < length buf"
    using assms(2) by (simp add: handler_parts(2))
  then have w: "fst (handler filename buf wg r) =
      (fst (handlerFunc filename buf wg r))
        \<lparr>Body := (if Method r = ''HEAD'' then [] else Body (fst (handlerFunc filename buf wg r)))\<rparr>"
    by (auto simp: handler_parts(3) wire_def)
  show "Status (fst (handler filename buf wg r)) = Some 200"
    by (simp add: w handlerFunc_match [OF assms(1)])
  show "Header (fst (handler filename buf wg r)) ''Content-Type'' = Some ''application/pdf''"
    by (simp add: w handlerFunc_match [OF assms(1)])
  show "Header (fst (handler filename buf wg r)) ''Content-Length''
           = Some (Itoa (int (length buf)))"
    by (simp add: w handlerFunc_match [OF assms(1)])
  show "Body (fst (handler filename buf wg r)) =
           (if Method r = ''HEAD'' then [] else snd (write_loop (Writes r) buf []))"
    by (simp add: w handlerFunc_match [OF assms(1)])
qed

lemma handler_dropped:
  assumes "Ends (fst (handler filename buf wg r)) \<noteq> Returns"
    and "length buf \<le> bufferBeforeChunkingSize"
  shows "Status (fst (handler filename buf wg r)) = None \<and> Body (fst (handler filename buf wg r)) = []"
proof -
  have "Ends (fst (handlerFunc filename buf wg r)) \<noteq> Returns"
    using assms(1) by (simp add: handler_parts(2))
  then show ?thesis using assms(2) by (simp add: handler_parts(3) wire_def)
qed

lemma handler_counter:
  "snd (handler filename buf wg r) = (if completes filename buf r then wg - 1 else wg)"
  by (cases "Path r = ''/'' @ filename")
     (simp_all add: handler_parts(1) handlerFunc_other_path handlerFunc_match completes_def)

lemma handler_keeps_wg:
  "\<not> completes filename buf q \<Longrightarrow> snd (handler filename buf wg q) = wg"
  by (simp add: handler_counter)

lemma handler_ends:
  "completes filename buf r \<Longrightarrow>
     Ends (fst (handler filename buf wg r)) =
       (if wg - 1 < 0 then Panics NegativeWaitGroupCounter else Returns)"
  by (simp add: completes_def handler_parts(2) handlerFunc_match)

lemma first_write_completes:
  "Path r = ''/'' @ filename \<Longrightarrow> Writes r = Wrote (length buf) # ws \<Longrightarrow> completes filename buf r"
  by (simp add: completes_def write_loop_all)

text \<open>The handler looks at the path and at nothing else: a request for the file whose
  writes are accepted in full is answered whatever the counter is, and the answer of a
  \<^verbatim>\<open>GET\<close> for a file larger than the buffer reaches the connection whole even when
  \<^verbatim>\<open>wg.Done()\<close> panics.\<close>

lemma handler_serves_whatever_counter:
  assumes "completes filename buf r" and "Method r \<noteq> ''HEAD''"
    and "bufferBeforeChunkingSize < length buf"
  shows "Status (fst (handler filename buf wg r)) = Some 200 \<and>
     Body (fst (handler filename buf wg r)) = buf \<and>
     snd (handler filename buf wg r) = wg - 1"
proof -
  have p: "Path r = ''/'' @ filename" and d: "fst (write_loop (Writes r) buf []) = LoopDone"
    using assms(1) by (simp_all add: completes_def)
  have s: "Ends (fst (handler filename buf wg r)) = Returns \<or> bufferBeforeChunkingSize < length buf"
    using assms(3) by simp
  show ?thesis
    using assms(1,2) by (simp add: handler_sent [OF p s] handler_counter write_loop_body(2) [OF d])
qed

lemma serve_Cons:
  "fst (serve filename buf wg (r # rs)) =
     fst (handler filename buf wg r) # fst (serve filename buf (snd (handler filename buf wg r)) rs)"
  "snd (serve filename buf wg (r # rs)) =
     snd (serve filename buf (snd (handler filename buf wg r)) rs)"
  by (simp_all split: prod.splits)

lemma serve_nth:
  "i < length rs \<Longrightarrow>
     \<exists>wg'. fst (serve filename buf wg rs) ! i = fst (handler filename buf wg' (rs ! i))"
proof (induction rs arbitrary: wg i)
  case Nil
  then show ?case by simp
next
  case (Cons r rs)
  show ?case
  proof (cases i)
    case 0
    have "fst (serve filename buf wg (r # rs)) ! 0 = fst (handler filename buf wg ((r # rs) ! 0))"
      by (simp only: serve_Cons nth_Cons_0)
    then show ?thesis using 0 by blast
  next
    case (Suc j)
    then have "j < length rs" using Cons.prems by simp
    from Cons.IH [OF this, of "snd (handler filename buf wg r)"] obtain wg' where
      "fst (serve filename buf (snd (handler filename buf wg r)) rs) ! j =
         fst (handler filename buf wg' (rs ! j))" by blast
    then have "fst (serve filename buf wg (r # rs)) ! Suc j =
        fst (handler filename buf wg' ((r # rs) ! Suc j))"
      by (simp only: serve_Cons nth_Cons_Suc)
    then show ?thesis using Suc by blast
  qed
qed

lemma Wait_blocked:
  "wg \<noteq> 0 \<Longrightarrow> \<forall>q\<in>set rs. \<not> completes filename buf q \<Longrightarrow> \<not> Wait filename buf wg rs"
  by (induction rs) (simp_all add: handler_keeps_wg)

lemma serve_keeps_wg:
  "\<forall>q\<in>set rs. \<not> completes filename buf q \<Longrightarrow> snd (serve filename buf wg rs) = wg"
proof (induction rs arbitrary: wg)
  case Nil
  then show ?case by simp
next
  case (Cons r rs)
  then show ?case by (simp only: serve_Cons) (simp add: handler_keeps_wg)
qed

lemma torn_answer:
  assumes "Path r = ''/'' @ filename" and "Writes r = WriteFailed n # ws" and "buf \<noteq> []"
    and "Method r \<noteq> ''HEAD''"
  shows "Status (fst (handler filename buf wg r)) = Some 200 \<and>
         Body (fst (handler filename buf wg r)) = take n buf"
proof -
  have w: "write_loop (Writes r) buf [] = (LoopError, take n buf)"
    using assms(2,3) by (simp add: write_loop_failed)
  then have "Ends (fst (handler filename buf wg r)) = Returns"
    using assms(1) by (simp add: handler_parts(2) handlerFunc_match)
  then have s: "Ends (fst (handler filename buf wg r)) = Returns \<or>
      bufferBeforeChunkingSize < length buf" by simp
  show ?thesis using assms(4) w by (simp add: handler_sent [OF assms(1) s])
qed

lemma get_big_completes: "completes ''a.pdf'' big_file get_big"
  by (rule first_write_completes [where ws = "[]"]) (simp_all add: get_big_def big_file_def)

lemma big_file_large: "bufferBeforeChunkingSize < length big_file"
  by (simp add: big_file_def bufferBeforeChunkingSize_def)

text \<open>
  C2. The claim: every request for the path of the file is answered \<^verbatim>\<open>200\<close> with
  \<^verbatim>\<open>Content-Type: application/pdf\<close>, the \<^verbatim>\<open>Content-Length\<close> of the buffer and a body that is
  the file byte for byte, and every other request \<^verbatim>\<open>404\<close>. Three requests for the path of the
  file are answered otherwise: a \<^verbatim>\<open>GET\<close> whose write fails after 1000 of the 3000 bytes of the
  file gets \<^verbatim>\<open>200\<close> and those 1000 bytes; a \<^verbatim>\<open>HEAD\<close> gets \<^verbatim>\<open>200\<close> and no body; and a \<^verbatim>\<open>GET\<close>
  for a file of 3 bytes whose handler panics in \<^verbatim>\<open>wg.Done()\<close>, an earlier request having
  brought the counter to \<open>0\<close>, gets no response at all.
\<close>

theorem full_body_for_every_match_counterexample:
  "Path get_big_torn = ''/'' @ ''a.pdf'' \<and>
   Status (fst (serve ''a.pdf'' big_file 1 [get_big_torn]) ! 0) = Some 200 \<and>
   length (Body (fst (serve ''a.pdf'' big_file 1 [get_big_torn]) ! 0)) = 1000 \<and>
   length big_file = 3000 \<and>
   Body (fst (serve ''a.pdf'' big_file 1 [get_big_torn]) ! 0) \<noteq> big_file \<and>
   Path head_ok = ''/'' @ ''a.pdf'' \<and>
   Status (fst (serve ''a.pdf'' ''abc'' 1 [head_ok]) ! 0) = Some 200 \<and>
   Body (fst (serve ''a.pdf'' ''abc'' 1 [head_ok]) ! 0) = [] \<and>
   Path get_ok = ''/'' @ ''a.pdf'' \<and>
   Status (fst (serve ''a.pdf'' ''abc'' 1 [get_ok, get_ok]) ! 1) = None \<and>
   Body (fst (serve ''a.pdf'' ''abc'' 1 [get_ok, get_ok]) ! 1) = []"
proof -
  have t: "Status (fst (handler ''a.pdf'' big_file 1 get_big_torn)) = Some 200 \<and>
      Body (fst (handler ''a.pdf'' big_file 1 get_big_torn)) = take 1000 big_file"
    by (rule torn_answer [where ws = "[]"]) (simp_all add: get_big_torn_def big_file_def)
  have a: "fst (serve ''a.pdf'' big_file 1 [get_big_torn]) ! 0 =
      fst (handler ''a.pdf'' big_file 1 get_big_torn)"
    by (simp only: serve_Cons nth_Cons_0)
  have b: "length (take 1000 big_file) = 1000" "length big_file = 3000"
    "take 1000 big_file \<noteq> big_file"
    by (simp_all add: big_file_def)
  have c: "Path head_ok = ''/'' @ ''a.pdf'' \<and>
      Status (fst (serve ''a.pdf'' ''abc'' 1 [head_ok]) ! 0) = Some 200 \<and>
      Body (fst (serve ''a.pdf'' ''abc'' 1 [head_ok]) ! 0) = []"
    by (simp add: head_ok_def handler_def handlerFunc_def wire_def Done_def)
  have d: "Path get_ok = ''/'' @ ''a.pdf'' \<and>
      Status (fst (serve ''a.pdf'' ''abc'' 1 [get_ok, get_ok]) ! 1) = None \<and>
      Body (fst (serve ''a.pdf'' ''abc'' 1 [get_ok, get_ok]) ! 1) = []"
    by (simp add: get_ok_def handler_def handlerFunc_def wire_def Done_def
        bufferBeforeChunkingSize_def)
  have e: "Path get_big_torn = ''/'' @ ''a.pdf''" by (simp add: get_big_torn_def)
  show ?thesis using t a b c d e by simp
qed

text \<open>
  C2, as the code has it: every request that the server of one attempt receives is answered
  by its path. A path other than \<^verbatim>\<open>/\<close> followed by the file name gets \<^verbatim>\<open>404\<close>. For the path
  of the file the body is made of the first bytes of the buffer; when the response goes out
  (the handler returns, or the file is larger than the response buffer), it is \<^verbatim>\<open>200\<close> with
  \<^verbatim>\<open>Content-Type: application/pdf\<close> and a \<^verbatim>\<open>Content-Length\<close> that is the decimal form of the
  number of bytes of the buffer; and its body is then the whole buffer, byte for byte, when
  the request is not a \<^verbatim>\<open>HEAD\<close> and its writes are accepted to the last byte, as they are
  when the first \<^verbatim>\<open>w.Write\<close> returns the length of the buffer and no error.
\<close>

theorem server_response:
  assumes "i < length rs"
  shows "(Path (rs ! i) \<noteq> ''/'' @ filename \<longrightarrow>
            Status (fst (serve filename buf wg rs) ! i) = Some 404) \<and>
         (Path (rs ! i) = ''/'' @ filename \<longrightarrow>
            prefix (Body (fst (serve filename buf wg rs) ! i)) buf \<and>
            (Ends (fst (serve filename buf wg rs) ! i) = Returns \<or>
             bufferBeforeChunkingSize < length buf \<longrightarrow>
               Status (fst (serve filename buf wg rs) ! i) = Some 200 \<and>
               Header (fst (serve filename buf wg rs) ! i) ''Content-Type''
                 = Some ''application/pdf'' \<and>
               Header (fst (serve filename buf wg rs) ! i) ''Content-Length''
                 = Some (Itoa (int (length buf))) \<and>
               map_option Atoi (Header (fst (serve filename buf wg rs) ! i) ''Content-Length'')
                 = Some (length buf) \<and>
               (completes filename buf (rs ! i) \<and> Method (rs ! i) \<noteq> ''HEAD'' \<longrightarrow>
                  Body (fst (serve filename buf wg rs) ! i) = buf) \<and>
               (Writes (rs ! i) = Wrote (length buf) # ws \<and> Method (rs ! i) \<noteq> ''HEAD'' \<longrightarrow>
                  Body (fst (serve filename buf wg rs) ! i) = buf)))"
proof -
  from serve_nth [OF assms] obtain wg' where
    h: "fst (serve filename buf wg rs) ! i = fst (handler filename buf wg' (rs ! i))" by blast
  show ?thesis
  proof (cases "Path (rs ! i) = ''/'' @ filename")
    case False
    then show ?thesis by (simp add: h handler_other_path)
  next
    case True
    have pre: "prefix (Body (fst (handler filename buf wg' (rs ! i)))) buf"
      using True by (rule handler_body_prefix)
    show ?thesis
    proof (cases "Ends (fst (handler filename buf wg' (rs ! i))) = Returns \<or>
        bufferBeforeChunkingSize < length buf")
      case sent: True
      show ?thesis
        using True pre sent
        by (simp add: h handler_sent [OF True sent] write_loop_body write_loop_all Atoi_Itoa
            completes_def)
    next
      case False
      then show ?thesis using True pre by (simp add: h)
    qed
  qed
qed

theorem server_response_witness:
  "(1::nat) < length [get_favicon, get_ok] \<and> (0::nat) < length [get_favicon, get_ok] \<and>
   Path ([get_favicon, get_ok] ! 0) \<noteq> ''/'' @ ''a.pdf'' \<and>
   Path ([get_favicon, get_ok] ! 1) = ''/'' @ ''a.pdf'' \<and>
   Ends (fst (serve ''a.pdf'' ''abc'' 1 [get_favicon, get_ok]) ! 1) = Returns \<and>
   completes ''a.pdf'' ''abc'' ([get_favicon, get_ok] ! 1) \<and>
   Writes ([get_favicon, get_ok] ! 1) = Wrote (length ''abc'') # [] \<and>
   Method ([get_favicon, get_ok] ! 1) \<noteq> ''HEAD'' \<and>
   Status (fst (serve ''a.pdf'' ''abc'' 1 [get_favicon, get_ok]) ! 0) = Some 404 \<and>
   Status (fst (serve ''a.pdf'' ''abc'' 1 [get_favicon, get_ok]) ! 1) = Some 200 \<and>
   Header (fst (serve ''a.pdf'' ''abc'' 1 [get_favicon, get_ok]) ! 1) ''Content-Length''
     = Some ''3'' \<and>
   Body (fst (serve ''a.pdf'' ''abc'' 1 [get_favicon, get_ok]) ! 1) = ''abc''"
  using server_response [of 1 "[get_favicon, get_ok]" "''a.pdf''" "''abc''" 1 "[]"]
    server_response [of 0 "[get_favicon, get_ok]" "''a.pdf''" "''abc''" 1 "[]"]
  by (simp add: get_favicon_def get_ok_def completes_def Itoa_def digits.simps handler_def
      handlerFunc_def wire_def Done_def)

text \<open>
  C1. The claim: the server serves the document exactly once and the completion signal is
  released exactly once, so that after one full write of the body to a request for the
  file, no other body is served. The comment above \<^verbatim>\<open>open\<close> says the same (a temporary
  server to serve the pdf once), and the counter of \<^verbatim>\<open>wg\<close> is set for one \<^verbatim>\<open>Done\<close>. But
  nothing in the handler or in \<^verbatim>\<open>open\<close> stops the server after the first transfer. With a
  file of 3000 bytes, larger than the response buffer, a second \<^verbatim>\<open>GET\<close> for the file is
  again answered \<^verbatim>\<open>200\<close> with the whole file, and its \<^verbatim>\<open>wg.Done()\<close> panics on the negative
  counter; when both requests are handled before \<^verbatim>\<open>cmd.Run()\<close> returns, \<^verbatim>\<open>wg.Wait()\<close> finds the
  counter at \<open>-1\<close> and \<^verbatim>\<open>open\<close> never returns.
\<close>

theorem second_request_served_again:
  "map Status (fst (serve ''a.pdf'' big_file 1 [get_big, get_big])) = [Some 200, Some 200] \<and>
   map Body (fst (serve ''a.pdf'' big_file 1 [get_big, get_big])) = [big_file, big_file] \<and>
   map Ends (fst (serve ''a.pdf'' big_file 1 [get_big, get_big]))
     = [Returns, Panics NegativeWaitGroupCounter] \<and>
   snd (serve ''a.pdf'' big_file 1 [get_big]) = 0 \<and>
   snd (serve ''a.pdf'' big_file 1 [get_big, get_big]) = - 1 \<and>
   fst (open_pdf id env_big ''a.pdf'' 1 no_proc) = Blocked"
proof -
  have m: "Method get_big \<noteq> ''HEAD''" by (simp add: get_big_def)
  note h = handler_serves_whatever_counter [OF get_big_completes m big_file_large]
  note e = handler_ends [OF get_big_completes]
  have s1: "fst (serve ''a.pdf'' big_file 1 [get_big, get_big]) =
      [fst (handler ''a.pdf'' big_file 1 get_big), fst (handler ''a.pdf'' big_file 0 get_big)]"
    using h [of 1] by (simp only: serve_Cons) simp
  have s2: "snd (serve ''a.pdf'' big_file 1 [get_big]) = 0"
    using h [of 1] by (simp only: serve_Cons) simp
  have s3: "snd (serve ''a.pdf'' big_file 1 [get_big, get_big]) = - 1"
    using h [of 1] h [of 0] by (simp only: serve_Cons) simp
  have w: "\<not> Wait ''a.pdf'' big_file (- 1) []" by simp
  have o: "fst (open_pdf id env_big ''a.pdf'' 1 no_proc) = Blocked"
    using s3 w by (simp add: open_pdf_def env_big_def Let_def Base_def)
  show ?thesis using s1 s2 s3 o h [of 1] h [of 0] e [of 1] e [of 0] by simp
qed

text \<open>
  C8. The claim: when the write of the body to a request for the file fails, the handler
  stops writing and the signal is never released, so that \<^verbatim>\<open>open\<close> never returns. The
  handler of that request indeed returns without \<^verbatim>\<open>wg.Done()\<close>, but the server goes on
  listening: when another request for the file follows and is written in full, the signal is
  released and \<^verbatim>\<open>open\<close> returns.
\<close>

theorem write_failure_blocks_forever_counterexample:
  "Path get_torn = ''/'' @ Base ''docs/a.pdf'' \<and>
   fst (write_loop (Writes get_torn) ''abc'' []) = LoopError \<and>
   fst (open_pdf id (env_a [get_torn, get_ok] None) ''docs/a.pdf'' 2 no_proc) = Returned None \<and>
   fst (open_pdf id (env_a [get_torn, get_ok] None) ''docs/a.pdf'' 2 no_proc) \<noteq> Blocked"
  by (simp add: env_a_def get_ok_def get_torn_def Base_def handler_def handlerFunc_def wire_def Done_def open_pdf_def
      Let_def)

text \<open>
  C8, as the code has it: when the write of the body to a request for the file fails, the
  handler returns at once, having sent only bytes from the start of the buffer, and leaves
  the counter as it was; and when no request of the attempt is written in full, \<^verbatim>\<open>open\<close>,
  once the viewer is started, never returns.
\<close>

theorem write_failure_leaves_caller_blocked:
  assumes "ReadFile env = Inr buf" and "Listen env = Inr port" and "Run env = None"
    and "Path r = ''/'' @ Base path" and "fst (write_loop (Writes r) buf []) = LoopError"
    and "\<forall>q\<in>set (requests env). \<not> completes (Base path) buf q"
  shows "snd (handler (Base path) buf wg r) = wg \<and>
         Ends (fst (handler (Base path) buf wg r)) = Returns \<and>
         prefix (Body (fst (handler (Base path) buf wg r))) buf \<and>
         fst (open_pdf PathEscape env path page st) = Blocked"
proof -
  have "\<not> completes (Base path) buf r" using assms(5) by (simp add: completes_def)
  then have a: "snd (handler (Base path) buf wg r) = wg" by (rule handler_keeps_wg)
  have b: "Ends (fst (handler (Base path) buf wg r)) = Returns"
    using assms(5) by (simp add: handler_parts(2) handlerFunc_match [OF assms(4)])
  have c: "prefix (Body (fst (handler (Base path) buf wg r))) buf"
    using assms(4) by (rule handler_body_prefix)
  have early: "\<forall>q\<in>set (take (before_run env) (requests env)). \<not> completes (Base path) buf q"
    using assms(6) by (meson in_set_takeD)
  have late: "\<forall>q\<in>set (drop (before_run env) (requests env)). \<not> completes (Base path) buf q"
    using assms(6) by (meson in_set_dropD)
  have "snd (serve (Base path) buf 1 (take (before_run env) (requests env))) = 1"
    using early by (rule serve_keeps_wg)
  moreover have "\<not> Wait (Base path) buf 1 (drop (before_run env) (requests env))"
    using late by (intro Wait_blocked) simp_all
  ultimately have d: "fst (open_pdf PathEscape env path page st) = Blocked"
    using assms(1,2,3) by (simp add: open_pdf_def Let_def)
  show ?thesis using a b c d by simp
qed

theorem write_failure_leaves_caller_blocked_witness:
  "ReadFile (env_a [get_favicon, get_torn] None) = Inr ''abc'' \<and>
   Listen (env_a [get_favicon, get_torn] None) = Inr 5001 \<and>
   Run (env_a [get_favicon, get_torn] None) = None \<and>
   Path get_torn = ''/'' @ Base ''docs/a.pdf'' \<and>
   fst (write_loop (Writes get_torn) ''abc'' []) = LoopError \<and>
   \<not> completes (Base ''docs/a.pdf'') ''abc'' get_favicon \<and>
   \<not> completes (Base ''docs/a.pdf'') ''abc'' get_torn \<and>
   snd (handler (Base ''docs/a.pdf'') ''abc'' 1 get_torn) = 1 \<and>
   Body (fst (handler (Base ''docs/a.pdf'') ''abc'' 1 get_torn)) = ''a'' \<and>
   fst (open_pdf id (env_a [get_favicon, get_torn] None) ''docs/a.pdf'' 2 no_proc) = Blocked"
  using write_failure_leaves_caller_blocked [where env = "env_a [get_favicon, get_torn] None"
      and buf = "''abc''" and port = 5001 and r = get_torn and path = "''docs/a.pdf''"
      and wg = 1 and PathEscape = id and page = 2 and st = no_proc]
  by (simp add: env_a_def get_favicon_def get_torn_def completes_def Base_def handler_def handlerFunc_def wire_def)

subsection \<open>The servers of a run\<close>

lemma open_pdf_servers:
  "servers (snd (open_pdf PathEscape env path page st)) = servers st \<or>
   (\<exists>srv. servers (snd (open_pdf PathEscape env path page st)) = srv # servers st)"
  by (simp add: open_pdf_def Let_def split: sum.splits option.splits)

lemma open_pdf_error:
  "open_pdf PathEscape env path page st = (Returned (Some err), st') \<Longrightarrow>
     \<not> launch_fails env \<Longrightarrow> st' = st"
  by (auto simp: open_pdf_def Let_def launch_fails_def split: sum.splits option.splits if_splits)

text \<open>A server that was started stays: the list of servers only grows.\<close>

lemma open_pdf_servers_suffix:
  "suffix (servers st) (servers (snd (open_pdf PathEscape env path page st)))"
  using open_pdf_servers [of PathEscape env path page st] by (auto simp: suffix_def)

lemma driver_servers_grow:
  "suffix (servers st) (servers (snd (driver PathEscape world k r cands st)))"
proof (induction cands arbitrary: k r st)
  case Nil
  then show ?case by simp
next
  case (Cons path rest)
  have step: "\<And>page r'. suffix (servers st)
      (servers (snd (case open_pdf PathEscape (world k path) path page st of
                (Returned (Some err), st') \<Rightarrow> driver PathEscape world (Suc k) r' rest st'
              | (Returned None, st') \<Rightarrow> (Exit 0, st')
              | (Blocked, st') \<Rightarrow> (Hang, st'))))"
  proof -
    fix page r'
    obtain res st' where op: "open_pdf PathEscape (world k path) path page st = (res, st')"
      by (cases "open_pdf PathEscape (world k path) path page st")
    have s: "suffix (servers st) (servers st')"
      using open_pdf_servers_suffix [of st PathEscape "world k path" path page] op by simp
    have "suffix (servers st') (servers (snd (driver PathEscape world (Suc k) r' rest st')))"
      by (rule Cons.IH)
    with s have "suffix (servers st) (servers (snd (driver PathEscape world (Suc k) r' rest st')))"
      by (rule suffix_order.trans)
    then show "suffix (servers st)
      (servers (snd (case open_pdf PathEscape (world k path) path page st of
                (Returned (Some err), st') \<Rightarrow> driver PathEscape world (Suc k) r' rest st'
              | (Returned None, st') \<Rightarrow> (Exit 0, st')
              | (Blocked, st') \<Rightarrow> (Hang, st'))))"
      using op s by (auto split: open_result.splits option.splits)
  qed
  show ?case
    using Cons.IH step
    by (auto split: prod.splits option.splits sum.splits)
qed

text \<open>
  C9. The claim: at most one document is served at a time, and the driver never starts the
  attempt of a second candidate, binding of its server included, while the server of an
  earlier attempt can still serve its document. When \<^verbatim>\<open>cmd.Run\<close> fails, \<^verbatim>\<open>open\<close> returns the
  error (lines 137 to 140) after \<^verbatim>\<open>go srv.Serve(ln)\<close>, and no line closes the listener: the
  driver goes on to the next candidate, which binds a second server beside the first. With
  \<^verbatim>\<open>a.pdf\<close> failing at the launch and \<^verbatim>\<open>b.pdf\<close> succeeding, the process ends with two
  servers, and the first still answers a request for \<^verbatim>\<open>a.pdf\<close> with the file.
\<close>

theorem second_attempt_beside_first_server_counterexample:
  "fst (driver id (two_worlds (env_a [] (Some RunError)) env_b) 0 count_up
          [''a.pdf'', ''b.pdf''] no_proc) = Exit 0 \<and>
   map Port (servers (snd (driver id (two_worlds (env_a [] (Some RunError)) env_b) 0 count_up
          [''a.pdf'', ''b.pdf''] no_proc))) = [5002, 5001] \<and>
   map Filename (servers (snd (driver id (two_worlds (env_a [] (Some RunError)) env_b) 0 count_up
          [''a.pdf'', ''b.pdf''] no_proc))) = [''b.pdf'', ''a.pdf''] \<and>
   \<not> length (servers (snd (driver id (two_worlds (env_a [] (Some RunError)) env_b) 0 count_up
          [''a.pdf'', ''b.pdf''] no_proc))) \<le> 1 \<and>
   Body (fst (handler ''a.pdf'' ''abc'' 1 get_ok)) = ''abc''"
  by (simp add: two_worlds_def env_a_def env_b_def countPages_def pick_page_def Intn_def
      below_def count_up_def open_pdf_def Let_def handler_def handlerFunc_def wire_def Done_def no_proc_def Base_def
      get_ok_def)

text \<open>
  C9, as the code has it: the driver tries the candidates one after the other, and an
  attempt that fails before its server is bound leaves nothing behind. So, when no attempt
  binds its server and then fails to start the viewer, the process, started without a
  server, never has more than one: the servers are never removed, and at the end of the run
  there is at most one.
\<close>

theorem one_server_unless_launch_fails:
  assumes "servers st = []" and "\<forall>k path. \<not> launch_fails (world k path)"
  shows "length (servers (snd (driver PathEscape world k r cands st))) \<le> 1"
  using assms(1)
proof (induction cands arbitrary: k r st)
  case Nil
  then show ?case by simp
next
  case (Cons path rest)
  obtain n e where cp: "countPages (world k path) path = (n, e)"
    by (cases "countPages (world k path) path")
  show ?case
  proof (cases e)
    case (Some err)
    then show ?thesis using cp Cons by simp
  next
    case None
    show ?thesis
    proof (cases "pick_page r n")
      case (Inl p)
      then show ?thesis using cp None Cons.prems by simp
    next
      case (Inr pr)
      obtain page r' where pr: "pr = (page, r')" by (cases pr)
      obtain res st' where op: "open_pdf PathEscape (world k path) path page st = (res, st')"
        by (cases "open_pdf PathEscape (world k path) path page st")
      have nf: "\<not> launch_fails (world k path)" using assms(2) by simp
      have one: "length (servers st') \<le> 1"
        using open_pdf_servers [of PathEscape "world k path" path page st] op Cons.prems by auto
      show ?thesis
      proof (cases res)
        case (Returned eo)
        show ?thesis
        proof (cases eo)
          case None': None
          then show ?thesis using cp None Inr pr op Returned one by simp
        next
          case (Some err)
          with op Returned have "st' = st" using open_pdf_error [OF _ nf] by simp
          then show ?thesis using cp None Inr pr op Returned Some Cons by simp
        qed
      next
        case Blocked
        then show ?thesis using cp None Inr pr op one by simp
      qed
    qed
  qed
qed

theorem one_server_unless_launch_fails_witness:
  "servers no_proc = [] \<and>
   \<not> launch_fails env_corrupt \<and> \<not> launch_fails env_b \<and>
   length (servers (snd (driver id (two_worlds env_corrupt env_b) 0 count_up
       [''bad.pdf'', ''b.pdf''] no_proc))) \<le> 1 \<and>
   map Port (servers (snd (driver id (two_worlds env_corrupt env_b) 0 count_up
       [''bad.pdf'', ''b.pdf''] no_proc))) = [5002]"
  using one_server_unless_launch_fails [where st = no_proc
      and world = "two_worlds env_corrupt env_b" and PathEscape = id and k = 0 and r = count_up
      and cands = "[''bad.pdf'', ''b.pdf'']"]
  by (simp add: two_worlds_def env_corrupt_def env_b_def launch_fails_def countPages_def
      pick_page_def Intn_def below_def count_up_def open_pdf_def Let_def handler_def handlerFunc_def wire_def Done_def
      no_proc_def Base_def)

subsection \<open>The whole program\<close>

text \<open>Without a candidate, \<^verbatim>\<open>main\<close> prints its message and exits with status \<open>1\<close>.\<close>

lemma main_no_candidates:
  "pdfs (collect join lstat args \<lparr>pdfs = [], stdin = input, printed = []\<rparr>) = [] \<Longrightarrow>
     fst (main join lstat PathEscape world rnd args input) = Exit 1 \<and>
     stdout (snd (main join lstat PathEscape world rnd args input)) =
       printed (collect join lstat args \<lparr>pdfs = [], stdin = input, printed = []\<rparr>)
         @ [''Could not find a usable PDF'']"
  by (simp add: main_def Shuffle_def Let_def)

end
